theory Spec2Isabelle
  imports Main "HOL-Library.AList" "HOL-Library.Sublist"
begin

section \<open>Medicine reminder: the scheduling engine of \<open>main.py\<close>\<close>

text \<open>
  The class \<open>MedicineReminder\<close> keeps three dictionaries (medicines, reminders, orders),
  scans the reminders once an hour and answers five tool calls. The model below is a
  shallow embedding of its methods:
  \<^item> a dictionary is an association list in insertion order (Python dictionaries iterate
    in insertion order; assigning to an existing key keeps its position), read with
    \<open>map_of\<close> and written with \<open>AList.update\<close>;
  \<^item> a record written by the code is a \<^theory_text>\<open>record\<close>; a field that the code reads with
    \<open>.get(key, default)\<close> is an \<open>option\<close>, \<open>None\<close> standing for the absent key;
  \<^item> a calendar date is its day number (the proleptic Gregorian ordinal of
    \<open>date.toordinal()\<close>, from 1 for 0001-01-01 to 3652059 for 9999-12-31); the code
    stores dates as ISO strings and reads them back with \<open>parse\<close>, and \<open>isoformat\<close> is
    injective and monotone on dates, so comparing the strings is comparing the day
    numbers. Adding \<open>relativedelta(days=n)\<close> adds \<open>n\<close> to the day number and raises
    \<open>OverflowError\<close> when the result is no date of \<open>datetime\<close>;
  \<^item> a character is a code point below 256, a string a list of them;
  \<^item> the clock and \<open>uuid4\<close> are inputs: every operation takes the current time, and the
    creating operations take the eight hexadecimal characters the generator returned;
  \<^item> an exception is a value of type \<open>error\<close>; the scan, which mutates the reminders
    before a later iteration may raise, returns the store and the notifications sent so
    far together with the error;
  \<^item> the files written by \<open>_save_data\<close> mirror the dictionaries and are never read again
    after start-up, so the store of the model is the in-memory state.
\<close>

subsection \<open>Data\<close>

type_synonym date = int

record timestamp =
  ts_date :: date
  ts_hour :: int

record medicine =
  m_id :: string
  m_name :: string
  m_dosage :: string
  m_quantity :: "int option"
  m_refill_period_days :: "int option"
  m_added_date :: "date option"
  m_last_refill_date :: "date option"

record reminder =
  r_medicine_id :: string
  r_days_before_empty :: "int option"
  r_reminder_time :: "string option"
  r_last_reminded_date :: "date option"

record order =
  o_id :: string
  o_medicine_id :: string
  o_medicine_name :: string
  o_medicine_dosage :: string
  o_order_date :: date
  o_status :: string

record upcoming_entry =
  u_medicine_id :: string
  u_medicine_name :: string
  u_medicine_dosage :: string
  u_reminder_date :: date
  u_empty_date :: date
  u_reminder_time :: string

record store =
  medicines :: "(string \<times> medicine) list"
  reminders :: "(string \<times> reminder) list"
  orders :: "(string \<times> order) list"

datatype error =
    NotFound string
  | InvalidLiteral string
  | ParseNone
  | OverflowError

text \<open>
  \<open>NotFound k\<close> is the \<open>ValueError("Medicine with ID k not found")\<close> of \<open>set_reminder\<close> and
  \<open>order_refill\<close>; \<open>InvalidLiteral t\<close> is the \<open>ValueError\<close> of \<open>int(t)\<close>; \<open>ParseNone\<close> is the
  \<open>TypeError\<close> of \<open>parse(None)\<close>, raised when a medicine has neither date;
  \<open>OverflowError\<close> is raised by \<open>datetime\<close> and \<open>timedelta\<close> arithmetic out of range.
\<close>

subsection \<open>Library functions: \<open>int\<close>, \<open>str.split\<close>, \<open>parse\<close>, \<open>relativedelta\<close>\<close>

text \<open>
  \<open>int(s)\<close> on a string drops the white space around it, accepts one sign and then
  decimal digits, and raises \<open>ValueError\<close> on anything else, and on more than 4300 digits
  (the default of \<open>sys.int_max_str_digits\<close>). White space is what \<open>int\<close> strips: the
  characters 9 to 13 and 32, and among the code points from 128 to 255 the two spaces
  133 and 160; the separators 28 to 31 are not stripped. No code point from 128 to 255
  is a decimal digit. \<open>s.split(':')[0]\<close> is the part of \<open>s\<close> before the first colon.
  \<open>parse\<close> reads back a stored date; the absent value is its only error.
\<close>

definition is_space :: "char \<Rightarrow> bool" where
  "is_space c = ((9 \<le> (of_char c :: nat) \<and> (of_char c :: nat) \<le> 13)
                 \<or> (of_char c :: nat) = 32
                 \<or> (of_char c :: nat) = 133 \<or> (of_char c :: nat) = 160)"

definition is_digit :: "char \<Rightarrow> bool" where
  "is_digit c = (48 \<le> (of_char c :: nat) \<and> (of_char c :: nat) \<le> 57)"

definition digit_val :: "char \<Rightarrow> int" where
  "digit_val c = int (of_char c) - 48"

definition strip :: "string \<Rightarrow> string" where
  "strip s = rev (dropWhile is_space (rev (dropWhile is_space s)))"

text \<open>Decimal digits, single underscores allowed between two digits.\<close>

fun digits_from :: "int \<Rightarrow> string \<Rightarrow> int option" where
  "digits_from acc [] = Some acc"
| "digits_from acc [c] = (if is_digit c then Some (acc * 10 + digit_val c) else None)"
| "digits_from acc (c # d # ds) =
     (if is_digit c then digits_from (acc * 10 + digit_val c) (d # ds)
      else if c = CHR ''_'' \<and> is_digit d then digits_from (acc * 10 + digit_val d) ds
      else None)"

definition max_str_digits :: nat where
  "max_str_digits = 4300"

definition py_digits :: "string \<Rightarrow> int option" where
  "py_digits s = (case s of [] \<Rightarrow> None
                  | c # cs \<Rightarrow>
                      if is_digit c \<and> length (filter is_digit s) \<le> max_str_digits
                      then digits_from (digit_val c) cs else None)"

definition py_int :: "string \<Rightarrow> error + int" where
  "py_int s =
     (let t = strip s;
          v = (case t of [] \<Rightarrow> None
               | c # cs \<Rightarrow> if c = CHR ''-'' then map_option uminus (py_digits cs)
                           else if c = CHR ''+'' then py_digits cs
                           else py_digits t)
      in case v of None \<Rightarrow> Inl (InvalidLiteral s) | Some n \<Rightarrow> Inr n)"

definition split_first :: "string \<Rightarrow> string" where
  "split_first s = takeWhile (\<lambda>c. c \<noteq> CHR '':'') s"

definition parse :: "date option \<Rightarrow> error + date" where
  "parse x = (case x of None \<Rightarrow> Inl ParseNone | Some d \<Rightarrow> Inr d)"

definition get_default :: "'a option \<Rightarrow> 'a \<Rightarrow> 'a" where
  "get_default x d = (case x of None \<Rightarrow> d | Some v \<Rightarrow> v)"

text \<open>
  \<open>dt + relativedelta(days=n)\<close> is \<open>dt + timedelta(days=n)\<close>, and
  \<open>dt - relativedelta(days=n)\<close> is \<open>dt + relativedelta(days=-n)\<close>. \<open>timedelta\<close> raises
  \<open>OverflowError\<close> for more than 999999999 days either way, and the sum raises it when it
  is no date between 0001-01-01 and 9999-12-31.
\<close>

definition valid_date :: "date \<Rightarrow> bool" where
  "valid_date d = (1 \<le> d \<and> d \<le> 3652059)"

definition add_days :: "date \<Rightarrow> int \<Rightarrow> error + date" where
  "add_days d n =
     (if \<bar>n\<bar> \<le> 999999999 \<and> valid_date (d + n) then Inr (d + n) else Inl OverflowError)"

subsection \<open>The scan: \<open>_check_reminders\<close>\<close>

text \<open>
  Lines 101 to 111: the local variables of one iteration, in the order the source
  computes them (the date is parsed first, then the hour is read, then the two dates
  are computed). The result is \<open>(reminder_hour, empty_date, reminder_date)\<close>.
\<close>

definition check_locals :: "medicine \<Rightarrow> reminder \<Rightarrow> error + (int \<times> date \<times> date)" where
  "check_locals medicine reminder =
     (case parse (case m_last_refill_date medicine of
                    Some d \<Rightarrow> Some d | None \<Rightarrow> m_added_date medicine) of
        Inl e \<Rightarrow> Inl e
      | Inr last_refill_date \<Rightarrow>
          (let refill_period = get_default (m_refill_period_days medicine) 30;
               days_before_empty = get_default (r_days_before_empty reminder) 5;
               reminder_time = get_default (r_reminder_time reminder) ''08:00''
           in case py_int (split_first reminder_time) of
                Inl e \<Rightarrow> Inl e
              | Inr reminder_hour \<Rightarrow>
                  (case add_days last_refill_date refill_period of
                     Inl e \<Rightarrow> Inl e
                   | Inr empty_date \<Rightarrow>
                       (case add_days empty_date (- days_before_empty) of
                          Inl e \<Rightarrow> Inl e
                        | Inr reminder_date \<Rightarrow>
                            Inr (reminder_hour, empty_date, reminder_date)))))"

text \<open>Lines 114 to 116: is the reminder due today at this hour and not yet sent today.\<close>

definition reminder_due :: "date \<Rightarrow> int \<Rightarrow> medicine \<Rightarrow> reminder \<Rightarrow> error + bool" where
  "reminder_due today current_hour medicine reminder =
     (case check_locals medicine reminder of
        Inl e \<Rightarrow> Inl e
      | Inr (reminder_hour, empty_date, reminder_date) \<Rightarrow>
          Inr (reminder_date = today \<and> reminder_hour = current_hour
               \<and> \<not> (r_last_reminded_date reminder = Some today)))"

text \<open>
  \<open>_send_whatsapp_reminder\<close> logs one message; the model records the medicine and the
  message.
\<close>

type_synonym notification = "string \<times> string"

definition send_whatsapp_reminder :: "medicine \<Rightarrow> string \<Rightarrow> notification" where
  "send_whatsapp_reminder medicine medicine_id =
     (medicine_id,
      ''Reminder: Your '' @ m_name medicine @ '' ('' @ m_dosage medicine
        @ '') will run out soon. Reply 'ORDER '' @ medicine_id
        @ ''' to place a refill order.'')"

record scan =
  sc_store :: store
  sc_sent :: "notification list"
  sc_error :: "error option"

text \<open>
  The loop of lines 97 to 123 over \<open>self.reminders.items()\<close>. A reminder without a
  medicine is skipped; an exception ends the scan, keeping what was written before.
\<close>

fun check_items :: "date \<Rightarrow> int \<Rightarrow> (string \<times> reminder) list \<Rightarrow> store \<Rightarrow> notification list \<Rightarrow> scan" where
  "check_items today current_hour [] s sent =
     \<lparr>sc_store = s, sc_sent = sent, sc_error = None\<rparr>"
| "check_items today current_hour ((medicine_id, reminder) # rest) s sent =
     (case map_of (medicines s) medicine_id of
        None \<Rightarrow> check_items today current_hour rest s sent
      | Some medicine \<Rightarrow>
          (case reminder_due today current_hour medicine reminder of
             Inl e \<Rightarrow> \<lparr>sc_store = s, sc_sent = sent, sc_error = Some e\<rparr>
           | Inr due \<Rightarrow>
               if due
               then check_items today current_hour rest
                      (s\<lparr>reminders := AList.map_entry medicine_id
                            (\<lambda>r. r\<lparr>r_last_reminded_date := Some today\<rparr>) (reminders s)\<rparr>)
                      (sent @ [send_whatsapp_reminder medicine medicine_id])
               else check_items today current_hour rest s sent))"

definition check_reminders :: "store \<Rightarrow> timestamp \<Rightarrow> scan" where
  "check_reminders s now =
     (let today = ts_date now; current_hour = ts_hour now
      in check_items today current_hour (reminders s) s [])"

subsection \<open>The mutations: \<open>add_medicine\<close>, \<open>set_reminder\<close>, \<open>order_refill\<close>\<close>


definition list_medicines :: "store \<Rightarrow> medicine list" where
  "list_medicines s = map snd (medicines s)"

definition set_reminder ::
  "store \<Rightarrow> string \<Rightarrow> int \<Rightarrow> string \<Rightarrow> (error + reminder) \<times> store" where
  "set_reminder s medicine_id days_before_empty reminder_time =
     (if map_of (medicines s) medicine_id = None then (Inl (NotFound medicine_id), s)
      else
        (let reminder = \<lparr>r_medicine_id = medicine_id,
                         r_days_before_empty = Some days_before_empty,
                         r_reminder_time = Some reminder_time,
                         r_last_reminded_date = None\<rparr>
         in (Inr reminder, s\<lparr>reminders := AList.update medicine_id reminder (reminders s)\<rparr>)))"

definition order_refill ::
  "store \<Rightarrow> timestamp \<Rightarrow> string \<Rightarrow> string \<Rightarrow> (error + order) \<times> store" where
  "order_refill s now uid medicine_id =
     (case map_of (medicines s) medicine_id of
        None \<Rightarrow> (Inl (NotFound medicine_id), s)
      | Some medicine \<Rightarrow>
          (let today = ts_date now;
               order = \<lparr>o_id = ''order_'' @ uid, o_medicine_id = medicine_id,
                        o_medicine_name = m_name medicine,
                        o_medicine_dosage = m_dosage medicine,
                        o_order_date = today, o_status = ''placed''\<rparr>;
               s1 = s\<lparr>medicines := AList.map_entry medicine_id
                          (\<lambda>m. m\<lparr>m_last_refill_date := Some today\<rparr>) (medicines s)\<rparr>;
               order_id = o_id order;
               s2 = s1\<lparr>orders := AList.update order_id order (orders s1)\<rparr>
           in (Inr order, s2)))"

subsection \<open>The query: \<open>get_upcoming_reminders\<close>\<close>

text \<open>Lines 213 to 220: \<open>(empty_date, reminder_date)\<close> of one iteration.\<close>

definition upcoming_locals :: "medicine \<Rightarrow> reminder \<Rightarrow> error + (date \<times> date)" where
  "upcoming_locals medicine reminder =
     (case parse (case m_last_refill_date medicine of
                    Some d \<Rightarrow> Some d | None \<Rightarrow> m_added_date medicine) of
        Inl e \<Rightarrow> Inl e
      | Inr last_refill_date \<Rightarrow>
          (let refill_period = get_default (m_refill_period_days medicine) 30;
               days_before_empty = get_default (r_days_before_empty reminder) 5
           in case add_days last_refill_date refill_period of
                Inl e \<Rightarrow> Inl e
              | Inr empty_date \<Rightarrow>
                  (case add_days empty_date (- days_before_empty) of
                     Inl e \<Rightarrow> Inl e
                   | Inr reminder_date \<Rightarrow> Inr (empty_date, reminder_date))))"

fun upcoming_items ::
  "date \<Rightarrow> (string \<times> medicine) list \<Rightarrow> (string \<times> reminder) list \<Rightarrow> upcoming_entry list
     \<Rightarrow> error + upcoming_entry list" where
  "upcoming_items today meds [] upcoming = Inr upcoming"
| "upcoming_items today meds ((medicine_id, reminder) # rest) upcoming =
     (case map_of meds medicine_id of
        None \<Rightarrow> upcoming_items today meds rest upcoming
      | Some medicine \<Rightarrow>
          (case upcoming_locals medicine reminder of
             Inl e \<Rightarrow> Inl e
           | Inr (empty_date, reminder_date) \<Rightarrow>
               if reminder_date \<ge> today
               then upcoming_items today meds rest
                      (upcoming @ [\<lparr>u_medicine_id = medicine_id,
                                    u_medicine_name = m_name medicine,
                                    u_medicine_dosage = m_dosage medicine,
                                    u_reminder_date = reminder_date,
                                    u_empty_date = empty_date,
                                    u_reminder_time =
                                      get_default (r_reminder_time reminder) ''08:00''\<rparr>])
               else upcoming_items today meds rest upcoming))"

text \<open>
  \<open>list.sort\<close> is a stable sort, and so is \<open>sort_key\<close>; the result of a stable sort is
  determined by its input. The store is returned as the method leaves it.
\<close>

definition get_upcoming_reminders ::
  "store \<Rightarrow> timestamp \<Rightarrow> (error + upcoming_entry list) \<times> store" where
  "get_upcoming_reminders s now =
     (let today = ts_date now
      in (case upcoming_items today (medicines s) (reminders s) [] of
            Inl e \<Rightarrow> Inl e
          | Inr upcoming \<Rightarrow> Inr (sort_key u_reminder_date upcoming),
          s))"

subsection \<open>The result of a scan, as functions of the reminder list\<close>

text \<open>
  Three list functions describe what the loop leaves behind: the reminder list afterwards,
  the notifications in the order they were sent, and the exception that ended the scan.
  Lemma \<open>check_items_char\<close> proves the loop equal to them when the keys are distinct, as
  the keys of a dictionary are.
\<close>

fun mark :: "date \<Rightarrow> int \<Rightarrow> (string \<times> medicine) list \<Rightarrow> (string \<times> reminder) list
    \<Rightarrow> (string \<times> reminder) list" where
  "mark today hr meds [] = []"
| "mark today hr meds ((k, r) # rest) =
     (case map_of meds k of
        None \<Rightarrow> (k, r) # mark today hr meds rest
      | Some m \<Rightarrow>
          (case reminder_due today hr m r of
             Inl e \<Rightarrow> (k, r) # rest
           | Inr due \<Rightarrow>
               (if due then (k, r\<lparr>r_last_reminded_date := Some today\<rparr>) else (k, r))
                 # mark today hr meds rest))"

fun fired :: "date \<Rightarrow> int \<Rightarrow> (string \<times> medicine) list \<Rightarrow> (string \<times> reminder) list
    \<Rightarrow> notification list" where
  "fired today hr meds [] = []"
| "fired today hr meds ((k, r) # rest) =
     (case map_of meds k of
        None \<Rightarrow> fired today hr meds rest
      | Some m \<Rightarrow>
          (case reminder_due today hr m r of
             Inl e \<Rightarrow> []
           | Inr due \<Rightarrow>
               (if due then [send_whatsapp_reminder m k] else []) @ fired today hr meds rest))"

fun raised :: "date \<Rightarrow> int \<Rightarrow> (string \<times> medicine) list \<Rightarrow> (string \<times> reminder) list
    \<Rightarrow> error option" where
  "raised today hr meds [] = None"
| "raised today hr meds ((k, r) # rest) =
     (case map_of meds k of
        None \<Rightarrow> raised today hr meds rest
      | Some m \<Rightarrow>
          (case reminder_due today hr m r of
             Inl e \<Rightarrow> Some e
           | Inr due \<Rightarrow> raised today hr meds rest))"

subsection \<open>The eligibility predicate, in the words of the specification\<close>

text \<open>
  The specification names four conditions; the first (the medicine exists) is stated in
  the theorems, the other three are \<open>eligible\<close>. The fire date is the last refill date
  plus the refill period minus the days before empty, each read as the code reads it
  (the date added stands in for a missing last refill date, 30 and 5 for a missing
  period and a missing number of days, 08:00 for a missing time).
\<close>

definition effective_last_refill :: "medicine \<Rightarrow> date option" where
  "effective_last_refill M =
     (case m_last_refill_date M of Some d \<Rightarrow> Some d | None \<Rightarrow> m_added_date M)"

definition spec_fire_date :: "medicine \<Rightarrow> reminder \<Rightarrow> date option" where
  "spec_fire_date M R =
     (case effective_last_refill M of
        None \<Rightarrow> None
      | Some D \<Rightarrow> Some (D + get_default (m_refill_period_days M) 30
                          - get_default (r_days_before_empty R) 5))"

definition parsed_hour :: "reminder \<Rightarrow> int option" where
  "parsed_hour R =
     (case py_int (split_first (get_default (r_reminder_time R) ''08:00'')) of
        Inl e \<Rightarrow> None | Inr h \<Rightarrow> Some h)"

definition eligible :: "date \<Rightarrow> int \<Rightarrow> medicine \<Rightarrow> reminder \<Rightarrow> bool" where
  "eligible today hr M R =
     (spec_fire_date M R = Some today
      \<and> parsed_hour R = Some hr
      \<and> r_last_reminded_date R \<noteq> Some today)"

text \<open>
  The dates of a reminder are in range when the empty date and the fire date are dates
  of \<open>datetime\<close> and neither number of days exceeds what \<open>timedelta\<close> takes. A reminder
  is readable when the scan can compute its hour and its dates: the medicine has a
  date, the dates are in range, and the hour of the reminder time is a number.
\<close>

definition in_range :: "medicine \<Rightarrow> reminder \<Rightarrow> bool" where
  "in_range M R =
     (case effective_last_refill M of
        None \<Rightarrow> True
      | Some D \<Rightarrow>
          (let P = get_default (m_refill_period_days M) 30;
               B = get_default (r_days_before_empty R) 5
           in \<bar>P\<bar> \<le> 999999999 \<and> valid_date (D + P)
            \<and> \<bar>B\<bar> \<le> 999999999 \<and> valid_date (D + P - B)))"

definition readable :: "medicine \<Rightarrow> reminder \<Rightarrow> bool" where
  "readable M R =
     (effective_last_refill M \<noteq> None \<and> in_range M R \<and> parsed_hour R \<noteq> None)"

subsection \<open>Example data\<close>

text \<open>
  The example of the specification: Lisinopril, 30 days, added on 2024-01-01 (day
  738886), reminder 5 days before empty at 08:00, hence due on 2024-01-26 (day 738911).
\<close>

definition lisinopril :: medicine where
  "lisinopril = \<lparr>m_id = ''med_a'', m_name = ''Lisinopril'', m_dosage = ''10mg'',
     m_quantity = Some 30, m_refill_period_days = Some 30,
     m_added_date = Some 738886, m_last_refill_date = Some 738886\<rparr>"

definition lisinopril_reminder :: reminder where
  "lisinopril_reminder = \<lparr>r_medicine_id = ''med_a'', r_days_before_empty = Some 5,
     r_reminder_time = Some ''08:00'', r_last_reminded_date = None\<rparr>"

definition example_store :: store where
  "example_store = \<lparr>medicines = [(''med_a'', lisinopril)],
     reminders = [(''med_a'', lisinopril_reminder)], orders = []\<rparr>"

definition jan26_8h :: timestamp where
  "jan26_8h = \<lparr>ts_date = 738911, ts_hour = 8\<rparr>"

text \<open>
  A second medicine with the same dates, a reminder whose time is no number, and two
  stores: in \<open>blocked_store\<close> the unreadable reminder comes first.
\<close>

definition metformin :: medicine where
  "metformin = \<lparr>m_id = ''med_b'', m_name = ''Metformin'', m_dosage = ''500mg'',
     m_quantity = Some 60, m_refill_period_days = Some 30,
     m_added_date = Some 738886, m_last_refill_date = Some 738886\<rparr>"

definition metformin_reminder :: reminder where
  "metformin_reminder = \<lparr>r_medicine_id = ''med_b'', r_days_before_empty = Some 5,
     r_reminder_time = Some ''08:00'', r_last_reminded_date = None\<rparr>"

definition noon_reminder :: reminder where
  "noon_reminder = \<lparr>r_medicine_id = ''med_a'', r_days_before_empty = Some 5,
     r_reminder_time = Some ''noon'', r_last_reminded_date = None\<rparr>"

definition blocked_store :: store where
  "blocked_store = \<lparr>medicines = [(''med_a'', lisinopril), (''med_b'', metformin)],
     reminders = [(''med_a'', noon_reminder), (''med_b'', metformin_reminder)], orders = []\<rparr>"

definition two_store :: store where
  "two_store = \<lparr>medicines = [(''med_a'', lisinopril), (''med_b'', metformin)],
     reminders = [(''med_a'', lisinopril_reminder), (''med_b'', metformin_reminder)],
     orders = []\<rparr>"

text \<open>
  Further stores for the examples: a store with nothing in it, one whose reminder was
  sent on 2024-01-26, a five-day course whose reminder is due on the day of the refill,
  a reminder whose medicine is gone, and three reminders of which two fall on one day.
\<close>

definition jan01_9h :: timestamp where
  "jan01_9h = \<lparr>ts_date = 738886, ts_hour = 9\<rparr>"

definition reminded_store :: store where
  "reminded_store = \<lparr>medicines = [(''med_a'', lisinopril)],
     reminders = [(''med_a'', lisinopril_reminder\<lparr>r_last_reminded_date := Some 738911\<rparr>)],
     orders = []\<rparr>"

definition antibiotic :: medicine where
  "antibiotic = \<lparr>m_id = ''med_c'', m_name = ''Amoxicillin'', m_dosage = ''250mg'',
     m_quantity = Some 15, m_refill_period_days = Some 5,
     m_added_date = Some 738906, m_last_refill_date = Some 738911\<rparr>"

definition antibiotic_reminder :: reminder where
  "antibiotic_reminder = \<lparr>r_medicine_id = ''med_c'', r_days_before_empty = Some 5,
     r_reminder_time = Some ''08:00'', r_last_reminded_date = Some 738911\<rparr>"

definition antibiotic_store :: store where
  "antibiotic_store = \<lparr>medicines = [(''med_c'', antibiotic)],
     reminders = [(''med_c'', antibiotic_reminder)], orders = []\<rparr>"


definition ghost_reminder :: reminder where
  "ghost_reminder = \<lparr>r_medicine_id = ''med_gone'', r_days_before_empty = Some 5,
     r_reminder_time = Some ''noon'', r_last_reminded_date = None\<rparr>"

definition ghost_store :: store where
  "ghost_store = \<lparr>medicines = [(''med_a'', lisinopril)],
     reminders = [(''med_gone'', ghost_reminder), (''med_a'', lisinopril_reminder)],
     orders = []\<rparr>"

definition tie_store :: store where
  "tie_store = \<lparr>medicines = [(''med_a'', lisinopril), (''med_b'', metformin),
                               (''med_c'', antibiotic)],
     reminders = [(''med_b'', metformin_reminder),
                  (''med_c'', \<lparr>r_medicine_id = ''med_c'', r_days_before_empty = Some 7,
                                r_reminder_time = Some ''07:15'', r_last_reminded_date = None\<rparr>),
                  (''med_a'', lisinopril_reminder)],
     orders = []\<rparr>"

definition jan15_8h :: timestamp where
  "jan15_8h = \<lparr>ts_date = 738900, ts_hour = 8\<rparr>"

definition tie_result :: "upcoming_entry list" where
  "tie_result =
     [\<lparr>u_medicine_id = ''med_c'', u_medicine_name = ''Amoxicillin'',
        u_medicine_dosage = ''250mg'', u_reminder_date = 738909, u_empty_date = 738916,
        u_reminder_time = ''07:15''\<rparr>,
      \<lparr>u_medicine_id = ''med_b'', u_medicine_name = ''Metformin'',
        u_medicine_dosage = ''500mg'', u_reminder_date = 738911, u_empty_date = 738916,
        u_reminder_time = ''08:00''\<rparr>,
      \<lparr>u_medicine_id = ''med_a'', u_medicine_name = ''Lisinopril'',
        u_medicine_dosage = ''10mg'', u_reminder_date = 738911, u_empty_date = 738916,
        u_reminder_time = ''08:00''\<rparr>]"

text \<open>
  The dates of a reminder can be projected when its medicine has a date and the dates
  are in range; the query needs no more of a reminder.
\<close>

definition projectable :: "medicine \<Rightarrow> reminder \<Rightarrow> bool" where
  "projectable M R = (effective_last_refill M \<noteq> None \<and> in_range M R)"

text \<open>
  A refill period of three million days, which leaves the range of \<open>datetime\<close>, and a
  store in which an order with the identifier \<open>order_0f0f0f0f\<close> exists already.
\<close>

definition stockpile :: medicine where
  "stockpile = \<lparr>m_id = ''med_s'', m_name = ''Vitamin D'', m_dosage = ''1000IU'',
     m_quantity = Some 30, m_refill_period_days = Some 3000000,
     m_added_date = Some 738886, m_last_refill_date = Some 738886\<rparr>"

definition stockpile_reminder :: reminder where
  "stockpile_reminder = \<lparr>r_medicine_id = ''med_s'', r_days_before_empty = Some 5,
     r_reminder_time = Some ''08:00'', r_last_reminded_date = None\<rparr>"

definition stockpile_store :: store where
  "stockpile_store = \<lparr>medicines = [(''med_s'', stockpile)],
     reminders = [(''med_s'', stockpile_reminder)], orders = []\<rparr>"

definition old_order :: order where
  "old_order = \<lparr>o_id = ''order_0f0f0f0f'', o_medicine_id = ''med_a'',
     o_medicine_name = ''Lisinopril'', o_medicine_dosage = ''10mg'',
     o_order_date = 738886, o_status = ''placed''\<rparr>"

definition ordered_store :: store where
  "ordered_store = \<lparr>medicines = [(''med_a'', lisinopril)],
     reminders = [(''med_a'', lisinopril_reminder)],
     orders = [(''order_0f0f0f0f'', old_order)]\<rparr>"

section \<open>Lemmas\<close>

subsection \<open>One iteration of the scan\<close>

lemma reminder_due_Inr:
  "reminder_due today hr M R = Inr b \<Longrightarrow>
     b = eligible today hr M R \<and> readable M R"
  by (auto simp: reminder_due_def check_locals_def eligible_def readable_def in_range_def
        spec_fire_date_def effective_last_refill_def parsed_hour_def parse_def add_days_def
        Let_def
      split: sum.splits option.splits if_splits)

lemma reminder_due_Inl:
  "reminder_due today hr M R = Inl e \<Longrightarrow> \<not> readable M R"
  by (auto simp: reminder_due_def check_locals_def readable_def in_range_def
        effective_last_refill_def parsed_hour_def parse_def add_days_def Let_def
      split: sum.splits option.splits if_splits)

lemma reminder_due_Inl_eligible:
  "in_range M R \<Longrightarrow> reminder_due today hr M R = Inl e \<Longrightarrow> \<not> eligible today hr M R"
  by (auto simp: reminder_due_def check_locals_def eligible_def in_range_def
        spec_fire_date_def effective_last_refill_def parsed_hour_def parse_def add_days_def
        Let_def
      split: sum.splits option.splits if_splits)

lemma reminder_due_marked:
  "reminder_due today hr M (R\<lparr>r_last_reminded_date := Some today\<rparr>) =
     (case reminder_due today hr M R of Inl e \<Rightarrow> Inl e | Inr b \<Rightarrow> Inr False)"
  by (simp add: reminder_due_def check_locals_def Let_def split: sum.splits option.splits)

lemma reminder_due_already:
  "r_last_reminded_date R = Some today \<Longrightarrow> reminder_due today hr M R \<noteq> Inr True"
  by (auto simp: reminder_due_def split: sum.splits)

subsection \<open>The loop and its description\<close>

lemma map_entry_middle:
  "k \<notin> fst ` set pre \<Longrightarrow> AList.map_entry k f (pre @ (k, r) # rest) = pre @ (k, f r) # rest"
  by (induction pre) auto

lemma check_items_char:
  "distinct (map fst (pre @ items)) \<Longrightarrow> reminders s = pre @ items \<Longrightarrow>
   check_items today hr items s sent =
     \<lparr>sc_store = s\<lparr>reminders := pre @ mark today hr (medicines s) items\<rparr>,
      sc_sent = sent @ fired today hr (medicines s) items,
      sc_error = raised today hr (medicines s) items\<rparr>"
proof (induction items arbitrary: pre s sent)
  case Nil
  then show ?case by simp
next
  case (Cons a items)
  obtain k r where a: "a = (k, r)" by (cases a)
  have k: "k \<notin> fst ` set pre" using Cons.prems(1) a by auto
  have d: "distinct (map fst ((pre @ [(k, x)]) @ items))" for x
    using Cons.prems(1) a by auto
  show ?case
  proof (cases "map_of (medicines s) k")
    case None
    have "reminders s = (pre @ [(k, r)]) @ items" using Cons.prems(2) a by simp
    from Cons.IH[OF d this] None a show ?thesis by simp
  next
    case (Some m)
    show ?thesis
    proof (cases "reminder_due today hr m r")
      case (Inl e)
      then show ?thesis using Some a Cons.prems(2) by simp
    next
      case (Inr due)
      show ?thesis
      proof (cases due)
        case True
        let ?r' = "r\<lparr>r_last_reminded_date := Some today\<rparr>"
        let ?s' = "s\<lparr>reminders := AList.map_entry k
                      (\<lambda>r. r\<lparr>r_last_reminded_date := Some today\<rparr>) (reminders s)\<rparr>"
        have "reminders ?s' = (pre @ [(k, ?r')]) @ items"
          using Cons.prems(2) a k by (simp add: map_entry_middle)
        from Cons.IH[OF d this] Some Inr True a show ?thesis by simp
      next
        case False
        have "reminders s = (pre @ [(k, r)]) @ items" using Cons.prems(2) a by simp
        from Cons.IH[OF d this] Some Inr False a show ?thesis by simp
      qed
    qed
  qed
qed

lemma check_reminders_char:
  assumes "distinct (map fst (reminders s))"
  shows "check_reminders s now =
     \<lparr>sc_store = s\<lparr>reminders := mark (ts_date now) (ts_hour now) (medicines s) (reminders s)\<rparr>,
      sc_sent = fired (ts_date now) (ts_hour now) (medicines s) (reminders s),
      sc_error = raised (ts_date now) (ts_hour now) (medicines s) (reminders s)\<rparr>"
  using check_items_char[of "[]" "reminders s" s "ts_date now" "ts_hour now" "[]"] assms
  by (simp add: check_reminders_def Let_def)

lemma keys_mark: "map fst (mark today hr meds items) = map fst items"
  by (induction items) (auto split: option.splits sum.splits)

lemma fired_mark: "fired today hr meds (mark today hr meds items) = []"
  by (induction items) (auto simp: reminder_due_marked split: option.splits sum.splits)

lemma mark_mark: "mark today hr meds (mark today hr meds items) = mark today hr meds items"
  by (induction items) (auto simp: reminder_due_marked split: option.splits sum.splits)

lemma raised_mark: "raised today hr meds (mark today hr meds items) = raised today hr meds items"
  by (induction items) (auto simp: reminder_due_marked split: option.splits sum.splits)

lemma fired_key: "(k, msg) \<in> set (fired today hr meds items) \<Longrightarrow> k \<in> fst ` set items"
proof (induction items)
  case Nil
  then show ?case by simp
next
  case (Cons a items)
  obtain k' r' where a: "a = (k', r')" by (cases a)
  show ?case
  proof (cases "(k, msg) \<in> set (fired today hr meds items)")
    case True
    then show ?thesis using Cons.IH by simp
  next
    case False
    with Cons.prems a have "k = k'"
      by (auto simp: send_whatsapp_reminder_def split: option.splits sum.splits if_splits)
    then show ?thesis using a by simp
  qed
qed

lemma keys_fired: "fst ` set (fired today hr meds items) \<subseteq> fst ` set items"
  using fired_key by fastforce

lemma distinct_fired:
  "distinct (map fst items) \<Longrightarrow> distinct (map fst (fired today hr meds items))"
proof (induction items)
  case Nil
  then show ?case by simp
next
  case (Cons a items)
  obtain k r where a: "a = (k, r)" by (cases a)
  have "k \<notin> fst ` set (fired today hr meds items)"
    using keys_fired[of today hr meds items] Cons.prems a by auto
  then show ?case using Cons a
    by (auto simp: send_whatsapp_reminder_def split: option.splits sum.splits)
qed

lemma fired_marked:
  "distinct (map fst items) \<Longrightarrow> k \<in> fst ` set (fired today hr meds items) \<Longrightarrow>
   \<exists>r. map_of (mark today hr meds items) k = Some r \<and> r_last_reminded_date r = Some today"
proof (induction items)
  case Nil
  then show ?case by simp
next
  case (Cons a items)
  obtain k' r' where a: "a = (k', r')" by (cases a)
  show ?case
  proof (cases "k = k'")
    case True
    have "k \<notin> fst ` set (fired today hr meds items)"
      using keys_fired[of today hr meds items] Cons.prems(1) a True by auto
    with Cons.prems(2) a True show ?thesis
      by (auto simp: send_whatsapp_reminder_def split: option.splits sum.splits if_splits)
  next
    case False
    with Cons a show ?thesis
      by (auto simp: send_whatsapp_reminder_def split: option.splits sum.splits if_splits)
  qed
qed

subsection \<open>Which reminders a scan notifies\<close>

lemma fired_append:
  "fired today hr meds (xs @ ys) =
     (if raised today hr meds xs = None
      then fired today hr meds xs @ fired today hr meds ys
      else fired today hr meds xs)"
  by (induction xs) (auto split: option.splits sum.splits)

lemma raised_readable:
  "(\<forall>(k, R) \<in> set items. \<forall>M. map_of meds k = Some M \<longrightarrow> readable M R) \<Longrightarrow>
   raised today hr meds items = None"
proof (induction items)
  case Nil
  then show ?case by simp
next
  case (Cons a items)
  obtain k R where a: "a = (k, R)" by (cases a)
  show ?case
  proof (cases "map_of meds k")
    case None
    then show ?thesis using Cons a by simp
  next
    case (Some M)
    then have "readable M R" using Cons.prems a by simp
    then obtain b where "reminder_due today hr M R = Inr b"
      using reminder_due_Inl[of today hr M R] by (cases "reminder_due today hr M R") auto
    then show ?thesis using Cons a Some by simp
  qed
qed

lemma fired_head:
  assumes "k \<notin> fst ` set post" and "\<forall>M. map_of meds k = Some M \<longrightarrow> in_range M R"
  shows "k \<in> fst ` set (fired today hr meds ((k, R) # post))
     \<longleftrightarrow> (\<exists>M. map_of meds k = Some M \<and> eligible today hr M R)"
proof (cases "map_of meds k")
  case None
  note \<open>k \<notin> fst ` set post\<close>
  then have "k \<notin> fst ` set (fired today hr meds post)"
    using keys_fired[of today hr meds post] by auto
  then show ?thesis using None by simp
next
  case (Some M)
  note \<open>k \<notin> fst ` set post\<close>
  then have n: "k \<notin> fst ` set (fired today hr meds post)"
    using keys_fired[of today hr meds post] by auto
  have r: "in_range M R" using assms(2) Some by simp
  show ?thesis
  proof (cases "reminder_due today hr M R")
    case (Inl e)
    then show ?thesis using Some reminder_due_Inl_eligible[OF r Inl] by simp
  next
    case (Inr b)
    then show ?thesis using Some n reminder_due_Inr[OF Inr]
      by (auto simp: send_whatsapp_reminder_def)
  qed
qed

subsection \<open>Association lists\<close>

lemma update_fresh: "k \<notin> fst ` set al \<Longrightarrow> AList.update k v al = al @ [(k, v)]"
  by (induction al) auto

lemma update_keys_present:
  "k \<in> fst ` set al \<Longrightarrow> map fst (AList.update k v al) = map fst al"
  by (induction al) auto

lemma keys_map_entry: "map fst (AList.map_entry k f al) = map fst al"
  by (induction al) auto

lemma map_of_map_entry_Some:
  "map_of al k = Some v \<Longrightarrow> map_of (AList.map_entry k f al) = (map_of al)(k \<mapsto> f v)"
  by (simp add: AList.map_of_map_entry fun_eq_iff)

subsection \<open>A reminder already sent today\<close>

lemma not_fired_if_marked:
  "distinct (map fst items) \<Longrightarrow> map_of items k = Some R \<Longrightarrow>
   r_last_reminded_date R = Some today \<Longrightarrow> k \<notin> fst ` set (fired today hr meds items)"
proof (induction items)
  case Nil
  then show ?case by simp
next
  case (Cons a items)
  obtain k' R' where a: "a = (k', R')" by (cases a)
  show ?case
  proof (cases "k' = k")
    case True
    then have R: "R' = R" using Cons.prems(2) a by simp
    have "k \<notin> fst ` set (fired today hr meds items)"
      using keys_fired[of today hr meds items] Cons.prems(1) a True by auto
    moreover have "reminder_due today hr M R \<noteq> Inr True" for M
      by (rule reminder_due_already[OF Cons.prems(3)])
    ultimately show ?thesis
      using a True R
      by (cases "map_of meds k"; cases "reminder_due today hr (the (map_of meds k)) R")
         (auto split: option.splits sum.splits)
  next
    case False
    then have "map_of items k = Some R" using Cons.prems(2) a by simp
    then have "k \<notin> fst ` set (fired today hr meds items)"
      using Cons.IH Cons.prems(1,3) by simp
    then show ?thesis using a False
      by (auto simp: send_whatsapp_reminder_def split: option.splits sum.splits)
  qed
qed

subsection \<open>The loop of the query\<close>

lemma upcoming_items_acc:
  "upcoming_items today meds items acc =
     (case upcoming_items today meds items [] of
        Inl e \<Rightarrow> Inl e | Inr es \<Rightarrow> Inr (acc @ es))"
proof (induction items arbitrary: acc)
  case Nil
  then show ?case by simp
next
  case (Cons a items)
  obtain k r where a: "a = (k, r)" by (cases a)
  show ?case
    using a Cons.IH[of acc] Cons.IH[of "acc @ [x]" for x] Cons.IH[of "[x]" for x]
    by (auto split: option.splits sum.splits)
qed

lemma upcoming_Cons:
  "upcoming_items today meds ((k, r) # rest) [] =
     (case map_of meds k of
        None \<Rightarrow> upcoming_items today meds rest []
      | Some m \<Rightarrow>
          (case upcoming_locals m r of
             Inl e \<Rightarrow> Inl e
           | Inr (empty_date, reminder_date) \<Rightarrow>
               (case upcoming_items today meds rest [] of
                  Inl e \<Rightarrow> Inl e
                | Inr es \<Rightarrow>
                    Inr ((if reminder_date \<ge> today
                          then [\<lparr>u_medicine_id = k, u_medicine_name = m_name m,
                                  u_medicine_dosage = m_dosage m,
                                  u_reminder_date = reminder_date, u_empty_date = empty_date,
                                  u_reminder_time = get_default (r_reminder_time r) ''08:00''\<rparr>]
                          else []) @ es))))"
  using upcoming_items_acc[of today meds rest "[x]" for x]
  by (auto split: option.splits sum.splits)

lemma upcoming_dates:
  "upcoming_items today meds items [] = Inr es \<Longrightarrow> \<forall>e \<in> set es. today \<le> u_reminder_date e"
proof (induction items arbitrary: es)
  case Nil
  then show ?case by simp
next
  case (Cons a items)
  obtain k r where a: "a = (k, r)" by (cases a)
  from Cons.prems show ?case
    unfolding a upcoming_Cons using Cons.IH
    by (auto split: option.splits sum.splits if_splits)
qed

lemma upcoming_keys:
  "upcoming_items today meds items [] = Inr es \<Longrightarrow> subseq (map u_medicine_id es) (map fst items)"
proof (induction items arbitrary: es)
  case Nil
  then show ?case by simp
next
  case (Cons a items)
  obtain k r where a: "a = (k, r)" by (cases a)
  from Cons.prems show ?case
    unfolding a upcoming_Cons using Cons.IH
    by (auto split: option.splits sum.splits if_splits)
qed

lemma upcoming_has_medicine:
  "upcoming_items today meds items [] = Inr es \<Longrightarrow>
   \<forall>e \<in> set es. map_of meds (u_medicine_id e) \<noteq> None"
proof (induction items arbitrary: es)
  case Nil
  then show ?case by simp
next
  case (Cons a items)
  obtain k r where a: "a = (k, r)" by (cases a)
  from Cons.prems show ?case
    unfolding a upcoming_Cons using Cons.IH
    by (auto split: option.splits sum.splits if_splits)
qed

subsection \<open>Reminders without a medicine\<close>

lemma upcoming_delete_orphan:
  "map_of meds k = None \<Longrightarrow>
   upcoming_items today meds (AList.delete k items) acc = upcoming_items today meds items acc"
  by (induction items arbitrary: acc) (auto simp: AList.delete_eq split: option.splits sum.splits)

lemma fired_delete_orphan:
  "map_of meds k = None \<Longrightarrow>
   fired today hr meds (AList.delete k items) = fired today hr meds items"
  by (induction items) (auto simp: AList.delete_eq split: option.splits sum.splits)

lemma raised_delete_orphan:
  "map_of meds k = None \<Longrightarrow>
   raised today hr meds (AList.delete k items) = raised today hr meds items"
  by (induction items) (auto simp: AList.delete_eq split: option.splits sum.splits)

lemma mark_orphan:
  "map_of meds k = None \<Longrightarrow> map_of (mark today hr meds items) k = map_of items k"
  by (induction items) (auto split: option.splits sum.splits)

lemma fired_orphan: "map_of meds k = None \<Longrightarrow> k \<notin> fst ` set (fired today hr meds items)"
proof (induction items)
  case Nil
  then show ?case by simp
next
  case (Cons a items)
  obtain k' r' where a: "a = (k', r')" by (cases a)
  show ?case using Cons a
    by (cases "k' = k") (auto simp: send_whatsapp_reminder_def split: option.splits sum.splits)
qed

subsection \<open>Dates in range\<close>

lemma add_days_valid:
  "valid_date d \<Longrightarrow> valid_date (d + n) \<Longrightarrow> add_days d n = Inr (d + n)"
  by (auto simp: add_days_def valid_date_def)

lemma upcoming_locals_projectable:
  "projectable M R \<Longrightarrow> \<exists>e f. upcoming_locals M R = Inr (e, f)"
  by (auto simp: projectable_def in_range_def upcoming_locals_def effective_last_refill_def
        parse_def add_days_def Let_def split: option.splits)

lemma locals_in_range:
  assumes "m_last_refill_date M = Some D" and "m_refill_period_days M = Some P"
    and "r_days_before_empty R = Some B"
    and "valid_date D" and "valid_date (D + P)" and "valid_date (D + P - B)"
  shows "upcoming_locals M R = Inr (D + P, D + P - B)"
    and "check_locals M R =
           (case py_int (split_first (get_default (r_reminder_time R) ''08:00'')) of
              Inl e \<Rightarrow> Inl e
            | Inr reminder_hour \<Rightarrow> Inr (reminder_hour, D + P, D + P - B))"
    and "spec_fire_date M R = Some (D + P - B)"
    and "in_range M R"
proof -
  have a: "add_days D P = Inr (D + P)" using assms(4,5) by (rule add_days_valid)
  have "valid_date (D + P + - B)" using assms(6) by simp
  then have b: "add_days (D + P) (- B) = Inr (D + P - B)"
    using add_days_valid[OF assms(5), of "- B"] by simp
  show "upcoming_locals M R = Inr (D + P, D + P - B)"
    using assms(1-3) a b by (simp add: upcoming_locals_def parse_def get_default_def Let_def)
  show "check_locals M R =
           (case py_int (split_first (get_default (r_reminder_time R) ''08:00'')) of
              Inl e \<Rightarrow> Inl e
            | Inr reminder_hour \<Rightarrow> Inr (reminder_hour, D + P, D + P - B))"
    using assms(1-3) a b
    by (simp add: check_locals_def parse_def get_default_def Let_def split: sum.splits)
  show "spec_fire_date M R = Some (D + P - B)"
    using assms(1-3)
    by (simp add: spec_fire_date_def effective_last_refill_def get_default_def)
  show "in_range M R"
    using assms
    by (auto simp: in_range_def effective_last_refill_def get_default_def valid_date_def Let_def)
qed

subsection \<open>The entry of one reminder in the answer of the query\<close>

lemma map_of_middle:
  "k \<notin> fst ` set pre \<Longrightarrow> map_of (pre @ (k, R) # post) k = Some R"
  by (induction pre) auto

lemma upcoming_ids:
  "upcoming_items today meds items [] = Inr es \<Longrightarrow> x \<in> set es \<Longrightarrow>
   u_medicine_id x \<in> fst ` set items"
proof (induction items arbitrary: es)
  case Nil
  then show ?case by simp
next
  case (Cons a items)
  obtain k r where a: "a = (k, r)" by (cases a)
  from Cons.prems show ?case
    unfolding a upcoming_Cons using Cons.IH
    by (auto split: option.splits sum.splits if_splits)
qed

lemma upcoming_entry_of:
  assumes "upcoming_items today meds items [] = Inr es"
    and "distinct (map fst items)" and "map_of items k = Some R"
    and "map_of meds k = Some M" and "upcoming_locals M R = Inr (e, f)"
  shows "(\<forall>x \<in> set es. u_medicine_id x = k \<longrightarrow> u_empty_date x = e \<and> u_reminder_date x = f)
       \<and> (today \<le> f \<longrightarrow> k \<in> u_medicine_id ` set es)"
  using assms
proof (induction items arbitrary: es)
  case Nil
  then show ?case by simp
next
  case (Cons a items)
  obtain k' r' where a: "a = (k', r')" by (cases a)
  show ?case
  proof (cases "k' = k")
    case True
    then have R: "r' = R" using Cons.prems(3) a by simp
    obtain rest where rest: "upcoming_items today meds items [] = Inr rest"
      and es: "es = (if today \<le> f
                     then [\<lparr>u_medicine_id = k, u_medicine_name = m_name M,
                             u_medicine_dosage = m_dosage M, u_reminder_date = f,
                             u_empty_date = e,
                             u_reminder_time = get_default (r_reminder_time R) ''08:00''\<rparr>]
                     else []) @ rest"
      using Cons.prems(1,4,5) unfolding a True R upcoming_Cons
      by (auto split: sum.splits)
    have "k \<notin> fst ` set items" using Cons.prems(2) a True by auto
    then have nrest: "\<forall>x \<in> set rest. u_medicine_id x \<noteq> k"
      using upcoming_ids[OF rest] by auto
    define ent where "ent = \<lparr>u_medicine_id = k, u_medicine_name = m_name M,
                             u_medicine_dosage = m_dosage M, u_reminder_date = f,
                             u_empty_date = e,
                             u_reminder_time = get_default (r_reminder_time R) ''08:00''\<rparr>"
    have ent: "u_medicine_id ent = k" "u_empty_date ent = e" "u_reminder_date ent = f"
      by (simp_all add: ent_def)
    have es': "es = (if today \<le> f then [ent] else []) @ rest"
      using es by (simp add: ent_def)
    show ?thesis using nrest ent unfolding es' by (auto split: if_splits)
  next
    case False
    then have m: "map_of items k = Some R" using Cons.prems(3) a by simp
    have d: "distinct (map fst items)" using Cons.prems(2) by simp
    show ?thesis
    proof (cases "map_of meds k'")
      case None
      then have "upcoming_items today meds items [] = Inr es"
        using Cons.prems(1) unfolding a upcoming_Cons by simp
      from Cons.IH[OF this d m Cons.prems(4,5)] show ?thesis .
    next
      case (Some M')
      then obtain rest hd where rest: "upcoming_items today meds items [] = Inr rest"
        and es: "es = hd @ rest" and hd: "\<forall>x \<in> set hd. u_medicine_id x = k'"
        using Cons.prems(1) unfolding a upcoming_Cons
        by (auto split: sum.splits if_splits)
      from Cons.IH[OF rest d m Cons.prems(4,5)] hd False show ?thesis
        unfolding es by auto
    qed
  qed
qed

lemma upcoming_total:
  "(\<forall>(k, R) \<in> set items. \<forall>M. map_of meds k = Some M \<longrightarrow> projectable M R) \<Longrightarrow>
   \<exists>es. upcoming_items today meds items [] = Inr es"
proof (induction items)
  case Nil
  then show ?case by simp
next
  case (Cons a items)
  obtain k R where a: "a = (k, R)" by (cases a)
  from Cons obtain rest where rest: "upcoming_items today meds items [] = Inr rest" by auto
  show ?case
  proof (cases "map_of meds k")
    case None
    then show ?thesis unfolding a upcoming_Cons using rest by simp
  next
    case (Some M)
    then have "projectable M R" using Cons.prems a by simp
    then obtain e f where "upcoming_locals M R = Inr (e, f)"
      using upcoming_locals_projectable by blast
    then show ?thesis unfolding a upcoming_Cons using rest Some by simp
  qed
qed

section \<open>The claims\<close>

text \<open>
  C1, as amended. Let a medicine have the last refill date \<open>D\<close> and the refill period \<open>P\<close>,
  and its reminder \<open>B\<close> days before empty, with \<open>D\<close>, \<open>D + P\<close> and \<open>D + P - B\<close> dates of
  \<open>datetime\<close>. Then both code sites compute the empty date \<open>D + P\<close> and the reminder date
  \<open>D + P - B\<close> (the scan after reading the hour of the reminder time, where it raises if
  that is no number). The query shows it: every entry it returns for the medicine
  carries these two dates, there is one when \<open>D + P - B\<close> is not before today, and the
  query does return when every reminder with a medicine has dates in range. The scan
  shows it: when the reminders before this one are readable, it notifies the medicine
  exactly if \<open>D + P - B\<close> is today, the hour is the current hour and the reminder was not
  sent today.
\<close>

theorem projection_correct:
  assumes "distinct (map fst (reminders s))"
    and "reminders s = pre @ (k, R) # post"
    and "map_of (medicines s) k = Some M"
    and "m_last_refill_date M = Some D"
    and "m_refill_period_days M = Some P"
    and "r_days_before_empty R = Some B"
    and "valid_date D" and "valid_date (D + P)" and "valid_date (D + P - B)"
  shows "upcoming_locals M R = Inr (D + P, D + P - B)
       \<and> check_locals M R =
           (case py_int (split_first (get_default (r_reminder_time R) ''08:00'')) of
              Inl e \<Rightarrow> Inl e
            | Inr reminder_hour \<Rightarrow> Inr (reminder_hour, D + P, D + P - B))
       \<and> (\<forall>es. fst (get_upcoming_reminders s now) = Inr es \<longrightarrow>
             (\<forall>x \<in> set es. u_medicine_id x = k \<longrightarrow>
                 u_empty_date x = D + P \<and> u_reminder_date x = D + P - B)
           \<and> (ts_date now \<le> D + P - B \<longrightarrow> k \<in> u_medicine_id ` set es))
       \<and> ((\<forall>(k', R') \<in> set (reminders s). \<forall>M'. map_of (medicines s) k' = Some M' \<longrightarrow>
               effective_last_refill M' \<noteq> None \<and> in_range M' R')
            \<longrightarrow> (\<exists>es. fst (get_upcoming_reminders s now) = Inr es))
       \<and> ((\<forall>(k', R') \<in> set pre. \<forall>M'. map_of (medicines s) k' = Some M' \<longrightarrow> readable M' R')
            \<longrightarrow> (k \<in> fst ` set (sc_sent (check_reminders s now))
                   \<longleftrightarrow> D + P - B = ts_date now \<and> parsed_hour R = Some (ts_hour now)
                       \<and> r_last_reminded_date R \<noteq> Some (ts_date now)))"
proof -
  let ?t = "ts_date now" and ?h = "ts_hour now" and ?m = "medicines s"
  note loc = locals_in_range[OF assms(4-9)]
  have "k \<notin> fst ` set pre" using assms(1,2) by auto
  then have R: "map_of (reminders s) k = Some R"
    unfolding assms(2) by (rule map_of_middle)
  have 3: "(\<forall>x \<in> set es. u_medicine_id x = k \<longrightarrow>
                 u_empty_date x = D + P \<and> u_reminder_date x = D + P - B)
           \<and> (?t \<le> D + P - B \<longrightarrow> k \<in> u_medicine_id ` set es)"
    if "fst (get_upcoming_reminders s now) = Inr es" for es
  proof -
    from that obtain us where us: "upcoming_items ?t ?m (reminders s) [] = Inr us"
      and es: "es = sort_key u_reminder_date us"
      by (auto simp: get_upcoming_reminders_def Let_def split: sum.splits)
    from upcoming_entry_of[OF us assms(1) R assms(3) loc(1)] show ?thesis
      unfolding es by simp
  qed
  have 4: "\<exists>es. fst (get_upcoming_reminders s now) = Inr es"
    if "\<forall>(k', R') \<in> set (reminders s). \<forall>M'. map_of ?m k' = Some M' \<longrightarrow>
               effective_last_refill M' \<noteq> None \<and> in_range M' R'"
  proof -
    from that have "\<forall>(k', R') \<in> set (reminders s). \<forall>M'. map_of ?m k' = Some M' \<longrightarrow>
        projectable M' R'"
      by (simp add: projectable_def)
    from upcoming_total[OF this, of ?t] show ?thesis
      by (auto simp: get_upcoming_reminders_def Let_def)
  qed
  have 5: "k \<in> fst ` set (sc_sent (check_reminders s now))
                   \<longleftrightarrow> D + P - B = ?t \<and> parsed_hour R = Some ?h
                       \<and> r_last_reminded_date R \<noteq> Some ?t"
    if pre: "\<forall>(k', R') \<in> set pre. \<forall>M'. map_of ?m k' = Some M' \<longrightarrow> readable M' R'"
  proof -
    have kpre: "k \<notin> fst ` set pre" and kpost: "k \<notin> fst ` set post"
      using assms(1,2) by auto
    have "k \<notin> fst ` set (fired ?t ?h ?m pre)"
      using keys_fired[of ?t ?h ?m pre] kpre by auto
    moreover have "raised ?t ?h ?m pre = None"
      by (rule raised_readable[OF pre])
    ultimately have "k \<in> fst ` set (fired ?t ?h ?m (reminders s))
        \<longleftrightarrow> k \<in> fst ` set (fired ?t ?h ?m ((k, R) # post))"
      unfolding assms(2) fired_append by auto
    moreover have ir: "\<forall>M'. map_of ?m k = Some M' \<longrightarrow> in_range M' R"
      using assms(3) loc(4) by simp
    ultimately show ?thesis
      using fired_head[OF kpost ir, of ?t ?h] check_reminders_char[OF assms(1), of now]
        assms(3) loc(3)
      by (auto simp: eligible_def)
  qed
  from loc(1,2) 3 4 5 show ?thesis by blast
qed

theorem projection_correct_witness:
  "distinct (map fst (reminders two_store))
   \<and> reminders two_store = [(''med_a'', lisinopril_reminder)] @ (''med_b'', metformin_reminder) # []
   \<and> map_of (medicines two_store) ''med_b'' = Some metformin
   \<and> m_last_refill_date metformin = Some 738886
   \<and> m_refill_period_days metformin = Some 30
   \<and> r_days_before_empty metformin_reminder = Some 5
   \<and> valid_date 738886 \<and> valid_date (738886 + 30) \<and> valid_date (738886 + 30 - 5)
   \<and> readable lisinopril lisinopril_reminder
   \<and> upcoming_locals metformin metformin_reminder = Inr (738916, 738911)
   \<and> check_locals metformin metformin_reminder = Inr (8, 738916, 738911)
   \<and> map (\<lambda>x. (u_medicine_id x, u_empty_date x, u_reminder_date x))
        (case fst (get_upcoming_reminders two_store jan26_8h) of Inl e \<Rightarrow> [] | Inr es \<Rightarrow> es)
       = [(''med_a'', 738916, 738911), (''med_b'', 738916, 738911)]
   \<and> ''med_b'' \<in> fst ` set (sc_sent (check_reminders two_store jan26_8h))"
proof -
  have d: "distinct (map fst (reminders two_store))" by code_simp
  have r: "reminders two_store
           = [(''med_a'', lisinopril_reminder)] @ (''med_b'', metformin_reminder) # []"
    by (simp add: two_store_def)
  have m: "map_of (medicines two_store) ''med_b'' = Some metformin" by (simp add: two_store_def)
  have D: "m_last_refill_date metformin = Some 738886" by (simp add: metformin_def)
  have P: "m_refill_period_days metformin = Some 30" by (simp add: metformin_def)
  have B: "r_days_before_empty metformin_reminder = Some 5"
    by (simp add: metformin_reminder_def)
  have v: "valid_date 738886" "valid_date (738886 + 30)" "valid_date (738886 + 30 - 5)"
    by (simp_all add: valid_date_def)
  have a: "readable lisinopril lisinopril_reminder" by code_simp
  have p: "\<forall>(k', R') \<in> set [(''med_a'', lisinopril_reminder)].
             \<forall>M'. map_of (medicines two_store) k' = Some M' \<longrightarrow> readable M' R'"
    using a by (simp add: two_store_def)
  have h: "py_int (split_first (get_default (r_reminder_time metformin_reminder) ''08:00''))
           = Inr 8"
    by code_simp
  have q: "map (\<lambda>x. (u_medicine_id x, u_empty_date x, u_reminder_date x))
        (case fst (get_upcoming_reminders two_store jan26_8h) of Inl e \<Rightarrow> [] | Inr es \<Rightarrow> es)
       = [(''med_a'', 738916, 738911), (''med_b'', 738916, 738911)]"
    by code_simp
  have e: "738886 + 30 - 5 = ts_date jan26_8h \<and> parsed_hour metformin_reminder = Some (ts_hour jan26_8h)
       \<and> r_last_reminded_date metformin_reminder \<noteq> Some (ts_date jan26_8h)"
    by code_simp
  from projection_correct[OF d r m D P B v, of jan26_8h] p e h
  have "upcoming_locals metformin metformin_reminder = Inr (738916, 738911)"
    and "check_locals metformin metformin_reminder = Inr (8, 738916, 738911)"
    and "''med_b'' \<in> fst ` set (sc_sent (check_reminders two_store jan26_8h))"
    by simp_all
  with d r m D P B v a q show ?thesis by simp
qed

text \<open>
  C1 as stated fails: with a refill period of 3000000 days from 2024-01-01 the empty
  date is no date of \<open>datetime\<close>; both code sites raise \<open>OverflowError\<close>, and so do the
  query and the scan.
\<close>

theorem projection_counterexample:
  "map_of (medicines stockpile_store) ''med_s'' = Some stockpile
   \<and> map_of (reminders stockpile_store) ''med_s'' = Some stockpile_reminder
   \<and> m_last_refill_date stockpile = Some 738886
   \<and> m_refill_period_days stockpile = Some 3000000
   \<and> r_days_before_empty stockpile_reminder = Some 5
   \<and> upcoming_locals stockpile stockpile_reminder = Inl OverflowError
   \<and> check_locals stockpile stockpile_reminder = Inl OverflowError
   \<and> fst (get_upcoming_reminders stockpile_store jan01_9h) = Inl OverflowError
   \<and> sc_error (check_reminders stockpile_store jan01_9h) = Some OverflowError"
  by code_simp

text \<open>
  C2, as amended. Let \<open>R\<close> be the reminder stored under \<open>k\<close>, with dates in range if its
  medicine exists, and let every reminder that precedes it in the reminders be readable
  when its medicine exists (the medicine has a date, the dates are in range, and the
  hour of the reminder time is a number). Then the scan notifies \<open>k\<close> if and only if the
  medicine exists, the fire date is today, the hour of the reminder time is the current
  hour, and the last reminded date is not today.
\<close>

theorem notified_iff_eligible:
  assumes "distinct (map fst (reminders s))"
    and "reminders s = pre @ (k, R) # post"
    and "\<forall>(k', R') \<in> set pre. \<forall>M'. map_of (medicines s) k' = Some M' \<longrightarrow> readable M' R'"
    and "\<forall>M. map_of (medicines s) k = Some M \<longrightarrow> in_range M R"
  shows "k \<in> fst ` set (sc_sent (check_reminders s now))
     \<longleftrightarrow> (\<exists>M. map_of (medicines s) k = Some M \<and> eligible (ts_date now) (ts_hour now) M R)"
proof -
  let ?t = "ts_date now" and ?h = "ts_hour now" and ?m = "medicines s"
  have kpre: "k \<notin> fst ` set pre" and kpost: "k \<notin> fst ` set post"
    using assms(1,2) by auto
  have "k \<notin> fst ` set (fired ?t ?h ?m pre)"
    using keys_fired[of ?t ?h ?m pre] kpre by auto
  moreover have "raised ?t ?h ?m pre = None"
    by (rule raised_readable[OF assms(3)])
  ultimately have "k \<in> fst ` set (fired ?t ?h ?m (reminders s))
      \<longleftrightarrow> k \<in> fst ` set (fired ?t ?h ?m ((k, R) # post))"
    unfolding assms(2) fired_append by auto
  then show ?thesis
    using fired_head[OF kpost assms(4), of ?t ?h] check_reminders_char[OF assms(1), of now]
    by simp
qed

theorem notified_iff_eligible_witness:
  "distinct (map fst (reminders two_store))
   \<and> reminders two_store = [(''med_a'', lisinopril_reminder)] @ (''med_b'', metformin_reminder) # []
   \<and> readable lisinopril lisinopril_reminder
   \<and> map_of (medicines two_store) ''med_b'' = Some metformin
   \<and> in_range metformin metformin_reminder
   \<and> eligible (ts_date jan26_8h) (ts_hour jan26_8h) metformin metformin_reminder
   \<and> ''med_b'' \<in> fst ` set (sc_sent (check_reminders two_store jan26_8h))"
proof -
  have d: "distinct (map fst (reminders two_store))" by code_simp
  have r: "reminders two_store
           = [(''med_a'', lisinopril_reminder)] @ (''med_b'', metformin_reminder) # []"
    by (simp add: two_store_def)
  have a: "readable lisinopril lisinopril_reminder" by code_simp
  have p: "\<forall>(k', R') \<in> set [(''med_a'', lisinopril_reminder)].
             \<forall>M'. map_of (medicines two_store) k' = Some M' \<longrightarrow> readable M' R'"
    using a by (simp add: two_store_def)
  have m: "map_of (medicines two_store) ''med_b'' = Some metformin" by (simp add: two_store_def)
  have i: "in_range metformin metformin_reminder" by code_simp
  have i': "\<forall>M. map_of (medicines two_store) ''med_b'' = Some M \<longrightarrow> in_range M metformin_reminder"
    using i m by simp
  have e: "eligible (ts_date jan26_8h) (ts_hour jan26_8h) metformin metformin_reminder"
    by code_simp
  from notified_iff_eligible[OF d r p i', of jan26_8h] d r a m i e show ?thesis by simp
qed

text \<open>
  C2 as stated fails: in \<open>blocked_store\<close> the reminder of \<open>med_b\<close> meets all four
  conditions on 2024-01-26 at 8, but the reminder of \<open>med_a\<close>, scanned first, has the time
  \<open>noon\<close>; \<open>int\<close> raises, the scan ends, and nothing is sent.
\<close>

theorem notified_iff_counterexample:
  "map_of (reminders blocked_store) ''med_b'' = Some metformin_reminder
   \<and> map_of (medicines blocked_store) ''med_b'' = Some metformin
   \<and> spec_fire_date metformin metformin_reminder = Some (ts_date jan26_8h)
   \<and> parsed_hour metformin_reminder = Some (ts_hour jan26_8h)
   \<and> r_last_reminded_date metformin_reminder \<noteq> Some (ts_date jan26_8h)
   \<and> sc_sent (check_reminders blocked_store jan26_8h) = []
   \<and> sc_error (check_reminders blocked_store jan26_8h) = Some (InvalidLiteral ''noon'')"
  by code_simp

text \<open>
  C3. Two scans in sequence at the same time: the second sends nothing and leaves the
  store as the first left it (and ends as the first ended); over both scans no medicine
  is notified twice, and every reminder the first scan notified carries today's date as
  its last reminded date. The keys of the reminders are distinct, as those of a
  dictionary are.
\<close>

theorem scan_twice:
  assumes "distinct (map fst (reminders s))"
  shows "(let first = check_reminders s now;
              second = check_reminders (sc_store first) now
          in sc_sent second = []
           \<and> sc_store second = sc_store first
           \<and> sc_error second = sc_error first
           \<and> distinct (map fst (sc_sent first @ sc_sent second))
           \<and> (\<forall>k \<in> fst ` set (sc_sent first).
                 \<exists>r. map_of (reminders (sc_store first)) k = Some r
                   \<and> r_last_reminded_date r = Some (ts_date now)))"
proof -
  let ?t = "ts_date now" and ?h = "ts_hour now"
  let ?s1 = "s\<lparr>reminders := mark ?t ?h (medicines s) (reminders s)\<rparr>"
  have d1: "distinct (map fst (reminders ?s1))" using assms by (simp add: keys_mark)
  have first: "check_reminders s now =
     \<lparr>sc_store = ?s1, sc_sent = fired ?t ?h (medicines s) (reminders s),
      sc_error = raised ?t ?h (medicines s) (reminders s)\<rparr>"
    by (rule check_reminders_char[OF assms])
  have second: "check_reminders ?s1 now =
     \<lparr>sc_store = ?s1, sc_sent = [], sc_error = raised ?t ?h (medicines s) (reminders s)\<rparr>"
    using check_reminders_char[OF d1, of now] by (simp add: fired_mark mark_mark raised_mark)
  have marked: "\<forall>k \<in> fst ` set (fired ?t ?h (medicines s) (reminders s)).
      \<exists>r. map_of (reminders ?s1) k = Some r \<and> r_last_reminded_date r = Some ?t"
    using fired_marked[OF assms] by simp
  show ?thesis
    unfolding Let_def first using second marked distinct_fired[OF assms, of ?t ?h "medicines s"]
    by simp
qed

theorem scan_twice_witness:
  "distinct (map fst (reminders example_store))
   \<and> map fst (sc_sent (check_reminders example_store jan26_8h)) = [''med_a'']
   \<and> sc_sent (check_reminders (sc_store (check_reminders example_store jan26_8h)) jan26_8h) = []
   \<and> sc_store (check_reminders (sc_store (check_reminders example_store jan26_8h)) jan26_8h)
       = sc_store (check_reminders example_store jan26_8h)"
proof -
  have d: "distinct (map fst (reminders example_store))" by code_simp
  have f: "map fst (sc_sent (check_reminders example_store jan26_8h)) = [''med_a'']"
    by code_simp
  from scan_twice[OF d, of jan26_8h] d f show ?thesis by (simp add: Let_def)
qed




text \<open>
  C5. \<open>set_reminder\<close> for an unknown medicine raises the not-found error and leaves the
  store as it was. For a known medicine it returns a new reminder without a last
  reminded date, and the reminders afterwards are those before with this key mapped to
  the new reminder: the old record is replaced, the key keeps its place (or is appended
  when new), and medicines and orders are untouched.
\<close>

theorem set_reminder_effect:
  "(map_of (medicines s) k = None \<longrightarrow> set_reminder s k B t = (Inl (NotFound k), s))
   \<and> (map_of (medicines s) k \<noteq> None \<longrightarrow>
        (let fresh = \<lparr>r_medicine_id = k, r_days_before_empty = Some B,
                       r_reminder_time = Some t, r_last_reminded_date = None\<rparr>;
             res = set_reminder s k B t
         in fst res = Inr fresh
          \<and> map_of (reminders (snd res)) = (map_of (reminders s))(k \<mapsto> fresh)
          \<and> map fst (reminders (snd res))
              = (if k \<in> fst ` set (reminders s) then map fst (reminders s)
                 else map fst (reminders s) @ [k])
          \<and> medicines (snd res) = medicines s
          \<and> orders (snd res) = orders s))"
  by (auto simp: set_reminder_def Let_def AList.update_conv' update_fresh update_keys_present)

theorem set_reminder_effect_witness:
  "set_reminder reminded_store ''med_x'' 5 ''08:00'' = (Inl (NotFound ''med_x''), reminded_store)
   \<and> map_of (medicines reminded_store) ''med_a'' \<noteq> None
   \<and> map_of (reminders reminded_store) ''med_a''
       = Some (lisinopril_reminder\<lparr>r_last_reminded_date := Some 738911\<rparr>)
   \<and> map_of (reminders (snd (set_reminder reminded_store ''med_a'' 3 ''09:30''))) ''med_a''
       = Some \<lparr>r_medicine_id = ''med_a'', r_days_before_empty = Some 3,
               r_reminder_time = Some ''09:30'', r_last_reminded_date = None\<rparr>"
proof -
  have n: "map_of (medicines reminded_store) ''med_x'' = None" by (simp add: reminded_store_def)
  have m: "map_of (medicines reminded_store) ''med_a'' \<noteq> None" by (simp add: reminded_store_def)
  have o: "map_of (reminders reminded_store) ''med_a''
       = Some (lisinopril_reminder\<lparr>r_last_reminded_date := Some 738911\<rparr>)"
    by (simp add: reminded_store_def)
  from set_reminder_effect[of reminded_store "''med_x''" 5 "''08:00''"] n
  have a: "set_reminder reminded_store ''med_x'' 5 ''08:00'' = (Inl (NotFound ''med_x''), reminded_store)"
    by simp
  from set_reminder_effect[of reminded_store "''med_a''" 3 "''09:30''"] m
  have b: "map_of (reminders (snd (set_reminder reminded_store ''med_a'' 3 ''09:30''))) ''med_a''
       = Some \<lparr>r_medicine_id = ''med_a'', r_days_before_empty = Some 3,
               r_reminder_time = Some ''09:30'', r_last_reminded_date = None\<rparr>"
    by (simp add: Let_def)
  from a b m o show ?thesis by simp
qed

text \<open>
  C6, as amended. \<open>order_refill\<close> for an unknown medicine raises the not-found error and
  leaves the store as it was. For a known medicine it returns an order with status
  \<open>placed\<close> and the name and dosage of the medicine and stores it under its identifier:
  appended as one new record when the identifier is not yet in use, in the place of the
  order of that identifier otherwise. It sets the last refill date of the medicine to
  today. For a period \<open>P\<close> and \<open>B\<close> days before empty with today, today plus \<open>P\<close> and today
  plus \<open>P - B\<close> dates of \<open>datetime\<close>, the reminder date computed afterwards is today plus
  \<open>P - B\<close>, at both code sites and in every answer of the query on the store left behind.
\<close>

theorem order_refill_effect:
  "(map_of (medicines s) k = None \<longrightarrow> order_refill s now uid k = (Inl (NotFound k), s))
   \<and> (\<forall>M. map_of (medicines s) k = Some M \<longrightarrow>
        (let res = order_refill s now uid k;
             ord = \<lparr>o_id = ''order_'' @ uid, o_medicine_id = k,
                    o_medicine_name = m_name M, o_medicine_dosage = m_dosage M,
                    o_order_date = ts_date now, o_status = ''placed''\<rparr>;
             M' = M\<lparr>m_last_refill_date := Some (ts_date now)\<rparr>
         in fst res = Inr ord
          \<and> map_of (orders (snd res)) = (map_of (orders s))(''order_'' @ uid \<mapsto> ord)
          \<and> (''order_'' @ uid \<notin> fst ` set (orders s) \<longrightarrow>
                orders (snd res) = orders s @ [(''order_'' @ uid, ord)])
          \<and> (''order_'' @ uid \<in> fst ` set (orders s) \<longrightarrow>
                map fst (orders (snd res)) = map fst (orders s))
          \<and> map_of (medicines (snd res)) = (map_of (medicines s))(k \<mapsto> M')
          \<and> map fst (medicines (snd res)) = map fst (medicines s)
          \<and> (\<forall>R P B. m_refill_period_days M = Some P \<and> r_days_before_empty R = Some B
                  \<and> valid_date (ts_date now) \<and> valid_date (ts_date now + P)
                  \<and> valid_date (ts_date now + P - B) \<longrightarrow>
                upcoming_locals M' R = Inr (ts_date now + P, ts_date now + (P - B))
              \<and> spec_fire_date M' R = Some (ts_date now + (P - B))
              \<and> check_locals M' R =
                  (case py_int (split_first (get_default (r_reminder_time R) ''08:00'')) of
                     Inl e \<Rightarrow> Inl e
                   | Inr reminder_hour \<Rightarrow>
                       Inr (reminder_hour, ts_date now + P, ts_date now + (P - B)))
              \<and> (\<forall>h e f. check_locals M' R = Inr (h, e, f) \<longrightarrow> f \<ge> ts_date now + (P - B))
              \<and> (distinct (map fst (reminders s)) \<and> map_of (reminders s) k = Some R \<longrightarrow>
                   (\<forall>later es. fst (get_upcoming_reminders (snd res) later) = Inr es \<longrightarrow>
                      (\<forall>x \<in> set es. u_medicine_id x = k \<longrightarrow>
                          u_reminder_date x = ts_date now + (P - B))
                    \<and> (ts_date later \<le> ts_date now + (P - B) \<longrightarrow>
                          k \<in> u_medicine_id ` set es))))))"
proof -
  let ?ord = "\<lambda>M. \<lparr>o_id = ''order_'' @ uid, o_medicine_id = k,
                    o_medicine_name = m_name M, o_medicine_dosage = m_dosage M,
                    o_order_date = ts_date now, o_status = ''placed''\<rparr>"
  let ?M' = "\<lambda>M. M\<lparr>m_last_refill_date := Some (ts_date now)\<rparr>"
  let ?res = "order_refill s now uid k"
  let ?t = "ts_date now"
  have A: "map_of (medicines s) k = None \<longrightarrow> ?res = (Inl (NotFound k), s)"
    by (simp add: order_refill_def)
  have B: "fst ?res = Inr (?ord M)
          \<and> map_of (orders (snd ?res)) = (map_of (orders s))(''order_'' @ uid \<mapsto> ?ord M)
          \<and> (''order_'' @ uid \<notin> fst ` set (orders s) \<longrightarrow>
                orders (snd ?res) = orders s @ [(''order_'' @ uid, ?ord M)])
          \<and> (''order_'' @ uid \<in> fst ` set (orders s) \<longrightarrow>
                map fst (orders (snd ?res)) = map fst (orders s))
          \<and> map_of (medicines (snd ?res)) = (map_of (medicines s))(k \<mapsto> ?M' M)
          \<and> map fst (medicines (snd ?res)) = map fst (medicines s)"
    if "map_of (medicines s) k = Some M" for M
    using that
    by (simp add: order_refill_def Let_def update_fresh update_keys_present keys_map_entry
          map_of_map_entry_Some AList.update_conv')
  have C: "upcoming_locals (?M' M) R = Inr (?t + P, ?t + (P - B))
         \<and> spec_fire_date (?M' M) R = Some (?t + (P - B))
         \<and> check_locals (?M' M) R =
              (case py_int (split_first (get_default (r_reminder_time R) ''08:00'')) of
                 Inl e \<Rightarrow> Inl e
               | Inr reminder_hour \<Rightarrow> Inr (reminder_hour, ?t + P, ?t + (P - B)))
         \<and> (\<forall>h e f. check_locals (?M' M) R = Inr (h, e, f) \<longrightarrow> f \<ge> ?t + (P - B))
         \<and> (distinct (map fst (reminders s)) \<and> map_of (reminders s) k = Some R \<longrightarrow>
               (\<forall>later es. fst (get_upcoming_reminders (snd ?res) later) = Inr es \<longrightarrow>
                  (\<forall>x \<in> set es. u_medicine_id x = k \<longrightarrow> u_reminder_date x = ?t + (P - B))
                \<and> (ts_date later \<le> ?t + (P - B) \<longrightarrow> k \<in> u_medicine_id ` set es)))"
    if M: "map_of (medicines s) k = Some M"
      and h: "m_refill_period_days M = Some P \<and> r_days_before_empty R = Some B
                  \<and> valid_date ?t \<and> valid_date (?t + P) \<and> valid_date (?t + P - B)"
    for M R P B
  proof -
    have e: "?t + (P - B) = ?t + P - B" by simp
    have l: "m_last_refill_date (?M' M) = Some ?t" "m_refill_period_days (?M' M) = Some P"
      using h by simp_all
    note loc = locals_in_range[OF l(1) l(2), of R B]
    have 1: "upcoming_locals (?M' M) R = Inr (?t + P, ?t + (P - B))"
      and 2: "check_locals (?M' M) R =
              (case py_int (split_first (get_default (r_reminder_time R) ''08:00'')) of
                 Inl e \<Rightarrow> Inl e
               | Inr reminder_hour \<Rightarrow> Inr (reminder_hour, ?t + P, ?t + (P - B)))"
      and 3: "spec_fire_date (?M' M) R = Some (?t + (P - B))"
      unfolding e using loc h by blast+
    have 4: "f \<ge> ?t + (P - B)" if "check_locals (?M' M) R = Inr (h', e', f)" for h' e' f
      using that unfolding 2 by (auto split: sum.splits)
    have 5: "(\<forall>x \<in> set es. u_medicine_id x = k \<longrightarrow> u_reminder_date x = ?t + (P - B))
                \<and> (ts_date later \<le> ?t + (P - B) \<longrightarrow> k \<in> u_medicine_id ` set es)"
      if d: "distinct (map fst (reminders s))" and R: "map_of (reminders s) k = Some R"
        and q: "fst (get_upcoming_reminders (snd ?res) later) = Inr es" for later es
    proof -
      have rem: "reminders (snd ?res) = reminders s"
        by (simp add: order_refill_def Let_def split: option.splits)
      have med: "map_of (medicines (snd ?res)) k = Some (?M' M)"
        using B[OF M] by simp
      from q obtain us where us: "upcoming_items (ts_date later) (medicines (snd ?res))
            (reminders s) [] = Inr us"
        and es: "es = sort_key u_reminder_date us"
        unfolding get_upcoming_reminders_def Let_def rem by (auto split: sum.splits)
      from upcoming_entry_of[OF us d R med 1] show ?thesis
        unfolding es by simp
    qed
    from 1 2 3 4 5 show ?thesis by blast
  qed
  let ?Y = "\<lambda>M. \<forall>R P B. m_refill_period_days M = Some P \<and> r_days_before_empty R = Some B
                  \<and> valid_date ?t \<and> valid_date (?t + P) \<and> valid_date (?t + P - B) \<longrightarrow>
                upcoming_locals (?M' M) R = Inr (?t + P, ?t + (P - B))
              \<and> spec_fire_date (?M' M) R = Some (?t + (P - B))
              \<and> check_locals (?M' M) R =
                  (case py_int (split_first (get_default (r_reminder_time R) ''08:00'')) of
                     Inl e \<Rightarrow> Inl e
                   | Inr reminder_hour \<Rightarrow> Inr (reminder_hour, ?t + P, ?t + (P - B)))
              \<and> (\<forall>h e f. check_locals (?M' M) R = Inr (h, e, f) \<longrightarrow> f \<ge> ?t + (P - B))
              \<and> (distinct (map fst (reminders s)) \<and> map_of (reminders s) k = Some R \<longrightarrow>
                   (\<forall>later es. fst (get_upcoming_reminders (snd ?res) later) = Inr es \<longrightarrow>
                      (\<forall>x \<in> set es. u_medicine_id x = k \<longrightarrow>
                          u_reminder_date x = ?t + (P - B))
                    \<and> (ts_date later \<le> ?t + (P - B) \<longrightarrow> k \<in> u_medicine_id ` set es)))"
  let ?XY = "\<lambda>M. fst ?res = Inr (?ord M)
          \<and> map_of (orders (snd ?res)) = (map_of (orders s))(''order_'' @ uid \<mapsto> ?ord M)
          \<and> (''order_'' @ uid \<notin> fst ` set (orders s) \<longrightarrow>
                orders (snd ?res) = orders s @ [(''order_'' @ uid, ?ord M)])
          \<and> (''order_'' @ uid \<in> fst ` set (orders s) \<longrightarrow>
                map fst (orders (snd ?res)) = map fst (orders s))
          \<and> map_of (medicines (snd ?res)) = (map_of (medicines s))(k \<mapsto> ?M' M)
          \<and> map fst (medicines (snd ?res)) = map fst (medicines s)
          \<and> ?Y M"
  have D: "\<forall>M. map_of (medicines s) k = Some M \<longrightarrow> ?XY M"
  proof (intro allI impI)
    fix M
    assume M: "map_of (medicines s) k = Some M"
    have Y: "?Y M" by (intro allI impI) (rule C[OF M])
    from B[OF M] Y show "?XY M" by (elim conjE, intro conjI) assumption+
  qed
  show ?thesis
    unfolding Let_def by (rule conjI[OF A D])
qed

theorem order_refill_effect_witness:
  "map_of (medicines example_store) ''med_x'' = None
   \<and> order_refill example_store jan26_8h ''0f0f0f0f'' ''med_x''
       = (Inl (NotFound ''med_x''), example_store)
   \<and> map_of (medicines example_store) ''med_a'' = Some lisinopril
   \<and> ''order_0f0f0f0f'' \<notin> fst ` set (orders example_store)
   \<and> m_refill_period_days lisinopril = Some 30
   \<and> r_days_before_empty lisinopril_reminder = Some 5
   \<and> valid_date (ts_date jan26_8h) \<and> valid_date (ts_date jan26_8h + 30)
   \<and> valid_date (ts_date jan26_8h + 30 - 5)
   \<and> orders (snd (order_refill example_store jan26_8h ''0f0f0f0f'' ''med_a''))
       = [(''order_0f0f0f0f'',
           \<lparr>o_id = ''order_0f0f0f0f'', o_medicine_id = ''med_a'',
              o_medicine_name = ''Lisinopril'', o_medicine_dosage = ''10mg'',
              o_order_date = 738911, o_status = ''placed''\<rparr>)]
   \<and> upcoming_locals (lisinopril\<lparr>m_last_refill_date := Some 738911\<rparr>) lisinopril_reminder
       = Inr (738941, 738936)"
proof -
  have n: "map_of (medicines example_store) ''med_x'' = None" by (simp add: example_store_def)
  have m: "map_of (medicines example_store) ''med_a'' = Some lisinopril"
    by (simp add: example_store_def)
  have f: "''order_'' @ ''0f0f0f0f'' \<notin> fst ` set (orders example_store)"
    by (simp add: example_store_def)
  have P: "m_refill_period_days lisinopril = Some 30" by (simp add: lisinopril_def)
  have B: "r_days_before_empty lisinopril_reminder = Some 5"
    by (simp add: lisinopril_reminder_def)
  have nm: "m_name lisinopril = ''Lisinopril''" "m_dosage lisinopril = ''10mg''"
    by (simp_all add: lisinopril_def)
  have t: "ts_date jan26_8h = 738911" by (simp add: jan26_8h_def)
  have v: "valid_date (ts_date jan26_8h)" "valid_date (ts_date jan26_8h + 30)"
    "valid_date (ts_date jan26_8h + 30 - 5)"
    by (simp_all add: t valid_date_def)
  from order_refill_effect[of example_store "''med_x''" jan26_8h "''0f0f0f0f''"] n
  have a: "order_refill example_store jan26_8h ''0f0f0f0f'' ''med_x''
       = (Inl (NotFound ''med_x''), example_store)"
    by simp
  from order_refill_effect[of example_store "''med_a''" jan26_8h "''0f0f0f0f''"] m f
  have b: "orders (snd (order_refill example_store jan26_8h ''0f0f0f0f'' ''med_a''))
       = orders example_store @ [(''order_'' @ ''0f0f0f0f'',
           \<lparr>o_id = ''order_'' @ ''0f0f0f0f'', o_medicine_id = ''med_a'',
              o_medicine_name = m_name lisinopril, o_medicine_dosage = m_dosage lisinopril,
              o_order_date = ts_date jan26_8h, o_status = ''placed''\<rparr>)]"
    and c: "\<forall>R P B. m_refill_period_days lisinopril = Some P \<and> r_days_before_empty R = Some B
              \<and> valid_date (ts_date jan26_8h) \<and> valid_date (ts_date jan26_8h + P)
              \<and> valid_date (ts_date jan26_8h + P - B) \<longrightarrow>
              upcoming_locals (lisinopril\<lparr>m_last_refill_date := Some (ts_date jan26_8h)\<rparr>) R
                = Inr (ts_date jan26_8h + P, ts_date jan26_8h + (P - B))"
    unfolding Let_def by blast+
  from c P B v have "upcoming_locals (lisinopril\<lparr>m_last_refill_date := Some (ts_date jan26_8h)\<rparr>)
      lisinopril_reminder = Inr (ts_date jan26_8h + 30, ts_date jan26_8h + (30 - 5))"
    by blast
  then have c': "upcoming_locals (lisinopril\<lparr>m_last_refill_date := Some 738911\<rparr>)
      lisinopril_reminder = Inr (738941, 738936)"
    by (simp add: t)
  from a b c' n m f nm t P B v show ?thesis by (simp add: example_store_def)
qed

text \<open>
  C6 as stated fails twice. When the generated identifier is that of an order already
  stored, the old order is overwritten and none is appended. And with a refill period
  of 3000000 days no fire date is computed after the refill: the query raises
  \<open>OverflowError\<close>.
\<close>

theorem order_refill_counterexample:
  "map_of (medicines ordered_store) ''med_a'' = Some lisinopril
   \<and> orders ordered_store = [(''order_0f0f0f0f'', old_order)]
   \<and> orders (snd (order_refill ordered_store jan26_8h ''0f0f0f0f'' ''med_a''))
       = [(''order_0f0f0f0f'',
           \<lparr>o_id = ''order_0f0f0f0f'', o_medicine_id = ''med_a'',
              o_medicine_name = ''Lisinopril'', o_medicine_dosage = ''10mg'',
              o_order_date = 738911, o_status = ''placed''\<rparr>)]
   \<and> length (orders (snd (order_refill ordered_store jan26_8h ''0f0f0f0f'' ''med_a'')))
       = length (orders ordered_store)
   \<and> map_of (medicines stockpile_store) ''med_s'' = Some stockpile
   \<and> map_of (medicines (snd (order_refill stockpile_store jan26_8h ''0f0f0f0f'' ''med_s'')))
        ''med_s'' = Some (stockpile\<lparr>m_last_refill_date := Some 738911\<rparr>)
   \<and> upcoming_locals (stockpile\<lparr>m_last_refill_date := Some 738911\<rparr>) stockpile_reminder
       = Inl OverflowError
   \<and> fst (get_upcoming_reminders
            (snd (order_refill stockpile_store jan26_8h ''0f0f0f0f'' ''med_s'')) jan26_8h)
       = Inl OverflowError"
  by code_simp

text \<open>
  C7. A reminder whose key has no medicine is never notified by the scan and keeps its
  record; the query lists no entry for it; and scan and query give the results, and
  raise the errors, that they give with this reminder deleted.
\<close>

theorem orphan_inert:
  assumes "distinct (map fst (reminders s))" and "map_of (medicines s) k = None"
  shows "k \<notin> fst ` set (sc_sent (check_reminders s now))
       \<and> map_of (reminders (sc_store (check_reminders s now))) k = map_of (reminders s) k
       \<and> (\<forall>es. fst (get_upcoming_reminders s now) = Inr es \<longrightarrow> k \<notin> u_medicine_id ` set es)
       \<and> sc_sent (check_reminders (s\<lparr>reminders := AList.delete k (reminders s)\<rparr>) now)
           = sc_sent (check_reminders s now)
       \<and> sc_error (check_reminders (s\<lparr>reminders := AList.delete k (reminders s)\<rparr>) now)
           = sc_error (check_reminders s now)
       \<and> fst (get_upcoming_reminders (s\<lparr>reminders := AList.delete k (reminders s)\<rparr>) now)
           = fst (get_upcoming_reminders s now)"
proof -
  let ?t = "ts_date now" and ?h = "ts_hour now" and ?m = "medicines s"
  let ?s' = "s\<lparr>reminders := AList.delete k (reminders s)\<rparr>"
  note c = check_reminders_char[OF assms(1), of now]
  have d': "distinct (map fst (reminders ?s'))"
    using assms(1) by (simp add: AList.distinct_delete)
  note c' = check_reminders_char[OF d', of now]
  have 1: "k \<notin> fst ` set (sc_sent (check_reminders s now))"
    unfolding c using fired_orphan[OF assms(2)] by simp
  have 2: "map_of (reminders (sc_store (check_reminders s now))) k = map_of (reminders s) k"
    unfolding c using mark_orphan[OF assms(2)] by simp
  have 3: "k \<notin> u_medicine_id ` set es" if "fst (get_upcoming_reminders s now) = Inr es" for es
  proof -
    from that obtain us where us: "upcoming_items ?t ?m (reminders s) [] = Inr us"
      and es: "es = sort_key u_reminder_date us"
      by (auto simp: get_upcoming_reminders_def Let_def split: sum.splits)
    from upcoming_has_medicine[OF us] assms(2) es show ?thesis by auto
  qed
  have 4: "sc_sent (check_reminders ?s' now) = sc_sent (check_reminders s now)"
    unfolding c c' using fired_delete_orphan[OF assms(2)] by simp
  have 5: "sc_error (check_reminders ?s' now) = sc_error (check_reminders s now)"
    unfolding c c' using raised_delete_orphan[OF assms(2)] by simp
  have 6: "fst (get_upcoming_reminders ?s' now) = fst (get_upcoming_reminders s now)"
    using upcoming_delete_orphan[OF assms(2)] by (simp add: get_upcoming_reminders_def Let_def)
  from 1 2 3 4 5 6 show ?thesis by blast
qed

theorem orphan_inert_witness:
  "distinct (map fst (reminders ghost_store))
   \<and> map_of (medicines ghost_store) ''med_gone'' = None
   \<and> map_of (reminders ghost_store) ''med_gone'' = Some ghost_reminder
   \<and> ''med_gone'' \<notin> fst ` set (sc_sent (check_reminders ghost_store jan26_8h))
   \<and> map_of (reminders (sc_store (check_reminders ghost_store jan26_8h))) ''med_gone''
       = Some ghost_reminder
   \<and> map fst (sc_sent (check_reminders ghost_store jan26_8h)) = [''med_a'']
   \<and> sc_error (check_reminders ghost_store jan26_8h) = None"
proof -
  have d: "distinct (map fst (reminders ghost_store))" by code_simp
  have m: "map_of (medicines ghost_store) ''med_gone'' = None" by (simp add: ghost_store_def)
  have r: "map_of (reminders ghost_store) ''med_gone'' = Some ghost_reminder"
    by (simp add: ghost_store_def)
  have f: "map fst (sc_sent (check_reminders ghost_store jan26_8h)) = [''med_a'']" by code_simp
  have e: "sc_error (check_reminders ghost_store jan26_8h) = None" by code_simp
  from orphan_inert[OF d m, of jan26_8h] d m r f e show ?thesis by simp
qed

text \<open>
  C8. When the query returns a list, every entry has a reminder date not before today,
  the reminder dates are in non-decreasing order, and the entries of any one date appear
  in the order of their keys in the reminders.
\<close>

theorem upcoming_sorted:
  assumes "fst (get_upcoming_reminders s now) = Inr es"
  shows "(\<forall>e \<in> set es. ts_date now \<le> u_reminder_date e)
       \<and> sorted (map u_reminder_date es)
       \<and> (\<forall>d. subseq (map u_medicine_id (filter (\<lambda>e. u_reminder_date e = d) es))
                      (map fst (reminders s)))"
proof -
  from assms obtain us where us: "upcoming_items (ts_date now) (medicines s) (reminders s) [] = Inr us"
    and es: "es = sort_key u_reminder_date us"
    by (auto simp: get_upcoming_reminders_def Let_def split: sum.splits)
  have 1: "\<forall>e \<in> set es. ts_date now \<le> u_reminder_date e"
    using upcoming_dates[OF us] es by simp
  have 2: "sorted (map u_reminder_date es)" using es by (simp add: sorted_sort_key)
  have 3: "subseq (map u_medicine_id (filter (\<lambda>e. u_reminder_date e = d) es))
                  (map fst (reminders s))" for d
  proof -
    have "filter (\<lambda>e. u_reminder_date e = d) es = filter (\<lambda>e. u_reminder_date e = d) us"
      unfolding es by (rule sort_key_stable)
    moreover have "subseq (map u_medicine_id (filter (\<lambda>e. u_reminder_date e = d) us))
                          (map u_medicine_id us)"
      by (simp add: subseq_map)
    ultimately show ?thesis
      using upcoming_keys[OF us] subseq_order.trans by fastforce
  qed
  from 1 2 3 show ?thesis by blast
qed

theorem upcoming_sorted_witness:
  "fst (get_upcoming_reminders tie_store jan15_8h) = Inr tie_result
   \<and> sorted (map u_reminder_date tie_result)
   \<and> subseq (map u_medicine_id (filter (\<lambda>e. u_reminder_date e = 738911) tie_result))
            (map fst (reminders tie_store))
   \<and> map u_medicine_id (filter (\<lambda>e. u_reminder_date e = 738911) tie_result)
       = [''med_b'', ''med_a'']"
proof -
  have e: "fst (get_upcoming_reminders tie_store jan15_8h) = Inr tie_result" by code_simp
  have f: "map u_medicine_id (filter (\<lambda>e. u_reminder_date e = 738911) tie_result)
       = [''med_b'', ''med_a'']"
    by code_simp
  from upcoming_sorted[OF e]
  have s: "sorted (map u_reminder_date tie_result)"
    and t: "subseq (map u_medicine_id (filter (\<lambda>e. u_reminder_date e = 738911) tie_result))
                   (map fst (reminders tie_store))"
    by blast+
  from e f s t show ?thesis by blast
qed

text \<open>
  C9. The query leaves the store as it was (medicines, reminders with their last
  reminded dates, orders), and asked again on the store it left, it answers the same.
\<close>

theorem upcoming_read_only:
  "snd (get_upcoming_reminders s now) = s
   \<and> medicines (snd (get_upcoming_reminders s now)) = medicines s
   \<and> reminders (snd (get_upcoming_reminders s now)) = reminders s
   \<and> orders (snd (get_upcoming_reminders s now)) = orders s
   \<and> get_upcoming_reminders (snd (get_upcoming_reminders s now)) now
       = get_upcoming_reminders s now"
  by (simp add: get_upcoming_reminders_def Let_def)

text \<open>
  C10. \<open>order_refill\<close> leaves the reminders as they were; hence a reminder already sent
  today is not sent again by a scan later that day, at any hour, whatever the new fire
  date.
\<close>

theorem order_refill_keeps_reminders:
  "reminders (snd (order_refill s now uid k)) = reminders s
   \<and> (distinct (map fst (reminders s)) \<and> map_of (reminders s) k = Some R
        \<and> r_last_reminded_date R = Some (ts_date now) \<longrightarrow>
      (\<forall>hr. k \<notin> fst ` set (sc_sent (check_reminders (snd (order_refill s now uid k))
                                      \<lparr>ts_date = ts_date now, ts_hour = hr\<rparr>))))"
proof -
  let ?s' = "snd (order_refill s now uid k)"
  have keep: "reminders ?s' = reminders s"
    by (simp add: order_refill_def Let_def split: option.splits)
  have "k \<notin> fst ` set (sc_sent (check_reminders ?s' \<lparr>ts_date = ts_date now, ts_hour = hr\<rparr>))"
    if d: "distinct (map fst (reminders s))" and R: "map_of (reminders s) k = Some R"
      and l: "r_last_reminded_date R = Some (ts_date now)" for hr
  proof -
    have d': "distinct (map fst (reminders ?s'))" using d keep by simp
    show ?thesis
      using check_reminders_char[OF d', of "\<lparr>ts_date = ts_date now, ts_hour = hr\<rparr>"]
        not_fired_if_marked[OF d R l, of hr "medicines ?s'"] keep
      by simp
  qed
  with keep show ?thesis by blast
qed

theorem order_refill_keeps_reminders_witness:
  "distinct (map fst (reminders antibiotic_store))
   \<and> map_of (reminders antibiotic_store) ''med_c'' = Some antibiotic_reminder
   \<and> r_last_reminded_date antibiotic_reminder = Some (ts_date jan26_8h)
   \<and> spec_fire_date (antibiotic\<lparr>m_last_refill_date := Some (ts_date jan26_8h)\<rparr>)
       antibiotic_reminder = Some (ts_date jan26_8h)
   \<and> parsed_hour antibiotic_reminder = Some 8
   \<and> reminders (snd (order_refill antibiotic_store jan26_8h ''0f0f0f0f'' ''med_c''))
       = reminders antibiotic_store
   \<and> ''med_c'' \<notin> fst ` set (sc_sent (check_reminders
         (snd (order_refill antibiotic_store jan26_8h ''0f0f0f0f'' ''med_c''))
         \<lparr>ts_date = ts_date jan26_8h, ts_hour = 8\<rparr>))"
proof -
  have d: "distinct (map fst (reminders antibiotic_store))" by code_simp
  have r: "map_of (reminders antibiotic_store) ''med_c'' = Some antibiotic_reminder"
    by (simp add: antibiotic_store_def)
  have l: "r_last_reminded_date antibiotic_reminder = Some (ts_date jan26_8h)" by code_simp
  have f: "spec_fire_date (antibiotic\<lparr>m_last_refill_date := Some (ts_date jan26_8h)\<rparr>)
       antibiotic_reminder = Some (ts_date jan26_8h)"
    by code_simp
  have h: "parsed_hour antibiotic_reminder = Some 8" by code_simp
  from order_refill_keeps_reminders[of antibiotic_store jan26_8h "''0f0f0f0f''" "''med_c''"
      antibiotic_reminder] d r l f h
  show ?thesis by simp
qed

end
